theory Spec2Isabelle
  imports Main
begin

section \<open>JavaScript values as the page script sees them\<close>

text \<open>
  The script \<^verbatim>\<open>static/main.js\<close> is untyped: whatever \<^verbatim>\<open>res.json()\<close> yields is
  handed to the renderer as it is. The values are therefore modelled as JSON values plus
  \<^verbatim>\<open>undefined\<close> (the result of reading a property that is not there). Numbers are
  restricted to integers, printed in decimal; strings are lists of characters.
\<close>

datatype jsval =
    JUndefined
  | JNull
  | JBool bool
  | JNum int
  | JStr string
  | JArr "jsval list"
  | JObj "(string \<times> jsval) list"

text \<open>A thrown value: an error object with its \<^verbatim>\<open>name\<close> and its \<^verbatim>\<open>message\<close>.\<close>

datatype js_error = JsError string string

text \<open>\<^verbatim>\<open>new Error(msg)\<close>\<close>

definition new_Error :: "string \<Rightarrow> js_error" where
  "new_Error msg = JsError ''Error'' msg"

text \<open>
  The \<^verbatim>\<open>TypeError\<close>s the engine itself throws. Their wording belongs to the engine; the
  model keeps a short description.
\<close>

definition TypeError_read :: "string \<Rightarrow> js_error" where
  "TypeError_read key = JsError ''TypeError'' (''cannot read property '' @ key)"

definition TypeError_not_function :: "string \<Rightarrow> js_error" where
  "TypeError_not_function key = JsError ''TypeError'' (key @ '' is not a function'')"

definition TypeError_not_iterable :: "string \<Rightarrow> js_error" where
  "TypeError_not_iterable what = JsError ''TypeError'' (what @ '' is not iterable'')"

text \<open>\<^verbatim>\<open>Error.prototype.toString\<close>, which a template literal applies to \<^verbatim>\<open>err\<close>.\<close>

fun error_to_string :: "js_error \<Rightarrow> string" where
  "error_to_string (JsError name msg) =
     (if name = [] then msg else if msg = [] then name else name @ '': '' @ msg)"

subsection \<open>Printing\<close>

definition digit_char :: "nat \<Rightarrow> char" where
  "digit_char n = ''0123456789'' ! n"

fun show_nat :: "nat \<Rightarrow> string" where
  "show_nat n = (if n < 10 then [digit_char n] else show_nat (n div 10) @ [digit_char (n mod 10)])"

declare show_nat.simps [simp del]

definition show_int :: "int \<Rightarrow> string" where
  "show_int i = (if i < 0 then CHR ''-'' # show_nat (nat (- i)) else show_nat (nat i))"

fun join_comma :: "string list \<Rightarrow> string" where
  "join_comma [] = []"
| "join_comma [x] = x"
| "join_comma (x # y # ys) = x @ '','' @ join_comma (y # ys)"

text \<open>
  \<^verbatim>\<open>String(v)\<close>, the conversion behind \<^verbatim>\<open>`${v}`\<close>: an array joins its elements with
  commas (\<^verbatim>\<open>null\<close> and \<^verbatim>\<open>undefined\<close> elements print as nothing), a plain object prints
  as \<^verbatim>\<open>[object Object]\<close>.
\<close>

fun to_string :: "jsval \<Rightarrow> string" where
  "to_string JUndefined = ''undefined''"
| "to_string JNull = ''null''"
| "to_string (JBool b) = (if b then ''true'' else ''false'')"
| "to_string (JNum n) = show_int n"
| "to_string (JStr s) = s"
| "to_string (JArr xs) =
     join_comma (map (\<lambda>x. if x = JNull \<or> x = JUndefined then [] else to_string x) xs)"
| "to_string (JObj kvs) = ''[object Object]''"

text \<open>
  Assigning \<^verbatim>\<open>el.textContent = v\<close>: the attribute is a nullable string, so \<^verbatim>\<open>null\<close>
  and \<^verbatim>\<open>undefined\<close> give the empty text and everything else is converted to a string.
\<close>

definition text_content :: "jsval \<Rightarrow> string" where
  "text_content v = (if v = JNull \<or> v = JUndefined then [] else to_string v)"

subsection \<open>Truthiness and property access\<close>

text \<open>\<^verbatim>\<open>!v\<close> is true exactly for the falsy values.\<close>

fun truthy :: "jsval \<Rightarrow> bool" where
  "truthy JUndefined = False"
| "truthy JNull = False"
| "truthy (JBool b) = b"
| "truthy (JNum n) = (n \<noteq> 0)"
| "truthy (JStr s) = (s \<noteq> [])"
| "truthy (JArr xs) = True"
| "truthy (JObj kvs) = True"


definition nullish_or :: "jsval \<Rightarrow> jsval \<Rightarrow> jsval" where
  "nullish_or a b = (if a = JNull \<or> a = JUndefined then b else a)"

text \<open>
  \<^verbatim>\<open>v.key\<close> for the keys the script reads (\<^verbatim>\<open>direction\<close>, \<^verbatim>\<open>queue\<close>, \<^verbatim>\<open>length\<close>,
  \<^verbatim>\<open>floor\<close>, \<^verbatim>\<open>detail\<close>, ...): reading from \<^verbatim>\<open>null\<close> or \<^verbatim>\<open>undefined\<close> throws, an
  object gives its own entry or \<^verbatim>\<open>undefined\<close>, arrays and strings have a
  \<^verbatim>\<open>length\<close>, and every other read gives \<^verbatim>\<open>undefined\<close>.
\<close>

fun get_prop :: "jsval \<Rightarrow> string \<Rightarrow> js_error + jsval" where
  "get_prop JUndefined key = Inl (TypeError_read key)"
| "get_prop JNull key = Inl (TypeError_read key)"
| "get_prop (JObj kvs) key = (case map_of kvs key of None \<Rightarrow> Inr JUndefined | Some v \<Rightarrow> Inr v)"
| "get_prop (JArr xs) key = (if key = ''length'' then Inr (JNum (int (length xs))) else Inr JUndefined)"
| "get_prop (JStr s) key = (if key = ''length'' then Inr (JNum (int (length s))) else Inr JUndefined)"
| "get_prop (JBool b) key = Inr JUndefined"
| "get_prop (JNum n) key = Inr JUndefined"

section \<open>The page\<close>

text \<open>
  An element of the kind the script creates: its tag, its class list, its text, whether
  it is disabled, and the floor its click handler passes to \<^verbatim>\<open>requestFloor\<close> (if it
  has a handler).
\<close>

record elem =
  tagName :: string
  classList :: "string list"
  textContent :: string
  disabled :: bool
  onclick :: "jsval option"

text \<open>\<^verbatim>\<open>document.createElement(tag)\<close>\<close>

definition createElement :: "string \<Rightarrow> elem" where
  "createElement tag =
     \<lparr>tagName = tag, classList = [], textContent = [], disabled = False, onclick = None\<rparr>"

text \<open>
  The eight elements the script looks up by id, taken to exist and to be distinct and
  unnested: five status fields (their text), and three containers (their children).
\<close>

record dom =
  dirEl :: string
  currentEl :: string
  targetEl :: string
  queueSizeEl :: string
  floorCountEl :: string
  queueChipsEl :: "elem list"
  floorsEl :: "elem list"
  logEl :: "elem list"

text \<open>The script's variables: the document and \<^verbatim>\<open>latestState\<close>.\<close>

record page =
  doc :: dom
  latestState :: jsval


section \<open>The log\<close>

definition is_log_line :: "elem \<Rightarrow> bool" where
  "is_log_line e = (''log-line'' \<in> set (classList e))"

fun remove_first :: "('a \<Rightarrow> bool) \<Rightarrow> 'a list \<Rightarrow> 'a list" where
  "remove_first P [] = []"
| "remove_first P (x # xs) = (if P x then xs else x # remove_first P xs)"

text \<open>Removing the last element that matches (\<^verbatim>\<open>lines[lines.length - 1].remove()\<close>).\<close>

definition remove_last :: "('a \<Rightarrow> bool) \<Rightarrow> 'a list \<Rightarrow> 'a list" where
  "remove_last P xs = rev (remove_first P (rev xs))"

text \<open>
  \<^verbatim>\<open>log(msg)\<close>; \<open>now\<close> is what \<^verbatim>\<open>new Date().toLocaleTimeString()\<close> returns at the
  call.
\<close>

definition log_line :: "string \<Rightarrow> jsval \<Rightarrow> elem" where
  "log_line now msg =
     (createElement ''p'')
       \<lparr>classList := [''log-line''],
        textContent := ''['' @ now @ ''] '' @ to_string msg\<rparr>"

definition log :: "string \<Rightarrow> jsval \<Rightarrow> dom \<Rightarrow> dom" where
  "log now msg d =
     (let p = log_line now msg;
          kids = p # logEl d;
          lines = filter is_log_line kids
      in if length lines > 80
         then d\<lparr>logEl := remove_last is_log_line kids\<rparr>
         else d\<lparr>logEl := kids\<rparr>)"

text \<open>A run of calls of \<^verbatim>\<open>log\<close>, each with its time and its message, in call order.\<close>

fun log_all :: "(string \<times> jsval) list \<Rightarrow> dom \<Rightarrow> dom" where
  "log_all [] d = d"
| "log_all ((now, msg) # rest) d = log_all rest (log now msg d)"

section \<open>Rendering\<close>

text \<open>
  A statement sequence that can throw part-way: what was written to the document before
  the throw stays written. \<open>and_then f g\<close> runs \<open>g\<close> only if \<open>f\<close> did not throw.
\<close>

definition and_then ::
  "(dom \<Rightarrow> js_error option \<times> dom) \<Rightarrow> (dom \<Rightarrow> js_error option \<times> dom) \<Rightarrow> dom \<Rightarrow> js_error option \<times> dom"
where
  "and_then f g d = (case f d of (Some e, d') \<Rightarrow> (Some e, d') | (None, d') \<Rightarrow> g d')"

text \<open>The five status fields (the assignments before the containers are touched).\<close>

definition render_status :: "jsval \<Rightarrow> dom \<Rightarrow> js_error option \<times> dom" where
  "render_status state d =
     (case get_prop state ''direction'' of Inl e \<Rightarrow> (Some e, d) | Inr dir \<Rightarrow>
      (let d = d\<lparr>dirEl := ''Direction: '' @ to_string dir\<rparr> in
      (case get_prop state ''currentFloor'' of Inl e \<Rightarrow> (Some e, d) | Inr cur \<Rightarrow>
      (let d = d\<lparr>currentEl := text_content cur\<rparr> in
      (case get_prop state ''activeTarget'' of Inl e \<Rightarrow> (Some e, d) | Inr target \<Rightarrow>
      (let d = d\<lparr>targetEl := text_content (nullish_or target (JStr ''-''))\<rparr> in
      (case get_prop state ''queue'' of Inl e \<Rightarrow> (Some e, d) | Inr q \<Rightarrow>
      (case get_prop q ''length'' of Inl e \<Rightarrow> (Some e, d) | Inr n \<Rightarrow>
      (let d = d\<lparr>queueSizeEl := text_content n\<rparr> in
      (case get_prop state ''numFloors'' of Inl e \<Rightarrow> (Some e, d) | Inr nf \<Rightarrow>
      (None, d\<lparr>floorCountEl := to_string nf @ '' floors''\<rparr>)))))))))))"

text \<open>The callback of \<^verbatim>\<open>state.queue.forEach\<close>: one chip appended.\<close>

definition queue_chip :: "jsval \<Rightarrow> elem" where
  "queue_chip f =
     (createElement ''div'')\<lparr>classList := [''chip''], textContent := ''Queued: '' @ to_string f\<rparr>"

fun chips_loop :: "jsval list \<Rightarrow> dom \<Rightarrow> dom" where
  "chips_loop [] d = d"
| "chips_loop (f # rest) d = chips_loop rest (d\<lparr>queueChipsEl := queueChipsEl d @ [queue_chip f]\<rparr>)"

text \<open>
  Calling \<^verbatim>\<open>q.forEach(...)\<close>: only an array has the method; on anything else the
  lookup gives something that cannot be called.
\<close>

definition forEach_items :: "jsval \<Rightarrow> js_error + jsval list" where
  "forEach_items q =
     (case q of
        JArr xs \<Rightarrow> Inr xs
      | _ \<Rightarrow> (case get_prop q ''forEach'' of
                Inl e \<Rightarrow> Inl e
              | Inr _ \<Rightarrow> Inl (TypeError_not_function ''state.queue.forEach'')))"

definition render_chips :: "jsval \<Rightarrow> dom \<Rightarrow> js_error option \<times> dom" where
  "render_chips state d =
     (let d = d\<lparr>queueChipsEl := []\<rparr> in
      (case get_prop state ''queue'' of Inl e \<Rightarrow> (Some e, d) | Inr q \<Rightarrow>
      (case forEach_items q of Inl e \<Rightarrow> (Some e, d) | Inr fs \<Rightarrow>
      (None, chips_loop fs d))))"

text \<open>\<^verbatim>\<open>btn.classList.add(c)\<close>\<close>

definition classList_add :: "string \<Rightarrow> elem \<Rightarrow> elem" where
  "classList_add c e = (if c \<in> set (classList e) then e else e\<lparr>classList := classList e @ [c]\<rparr>)"

definition disableStates :: "jsval list" where
  "disableStates = [JStr ''Queued'', JStr ''Moving'', JStr ''Current'']"

text \<open>
  The callback of the floors loop up to \<^verbatim>\<open>appendChild\<close>: the button built for one
  entry, or the error thrown while reading the entry.
\<close>

definition floor_button :: "jsval \<Rightarrow> js_error + elem" where
  "floor_button info =
     (case get_prop info ''floor'' of Inl e \<Rightarrow> Inl e | Inr fl \<Rightarrow>
      (case get_prop info ''state'' of Inl e \<Rightarrow> Inl e | Inr st \<Rightarrow>
      (let btn = (createElement ''button'')
                  \<lparr>classList := [''floor''], textContent := text_content fl, onclick := Some fl\<rparr>;
          btn = (if st = JStr ''Current'' then classList_add ''state-current'' btn else btn);
          btn = (if st = JStr ''Moving'' then classList_add ''state-moving'' btn else btn);
          btn = (if st = JStr ''Queued'' then classList_add ''state-queued'' btn else btn);
          btn = (if st \<in> set disableStates then btn\<lparr>disabled := True\<rparr> else btn)
      in Inr btn)))"

fun floors_loop :: "jsval list \<Rightarrow> dom \<Rightarrow> js_error option \<times> dom" where
  "floors_loop [] d = (None, d)"
| "floors_loop (info # rest) d =
     (case floor_button info of
        Inl e \<Rightarrow> (Some e, d)
      | Inr btn \<Rightarrow> floors_loop rest (d\<lparr>floorsEl := floorsEl d @ [btn]\<rparr>))"

text \<open>\<^verbatim>\<open>[...v]\<close>: arrays and strings are iterable, nothing else among these values is.\<close>

definition spread :: "jsval \<Rightarrow> js_error + jsval list" where
  "spread v =
     (case v of
        JArr xs \<Rightarrow> Inr xs
      | JStr s \<Rightarrow> Inr (map (\<lambda>c. JStr [c]) s)
      | _ \<Rightarrow> Inl (TypeError_not_iterable ''state.floors''))"

definition render_floors :: "jsval \<Rightarrow> dom \<Rightarrow> js_error option \<times> dom" where
  "render_floors state d =
     (let d = d\<lparr>floorsEl := []\<rparr> in
      (case get_prop state ''floors'' of Inl e \<Rightarrow> (Some e, d) | Inr fl \<Rightarrow>
      (case spread fl of Inl e \<Rightarrow> (Some e, d) | Inr infos \<Rightarrow>
      floors_loop (rev infos) d)))"

text \<open>
  \<^verbatim>\<open>renderState(state)\<close>: the error thrown, if any, and the document as it is left.
\<close>

definition renderState :: "jsval \<Rightarrow> dom \<Rightarrow> js_error option \<times> dom" where
  "renderState state d =
     (if \<not> truthy state then (None, d)
      else and_then (render_status state)
             (and_then (render_chips state) (render_floors state)) d)"

section \<open>Polling and requesting\<close>

text \<open>
  What the network hands back is an input of the model. A response carries its
  \<^verbatim>\<open>ok\<close> flag and \<^verbatim>\<open>statusText\<close>, and the outcomes of \<^verbatim>\<open>res.text()\<close> and
  \<^verbatim>\<open>res.json()\<close>, each of which may reject; \<^verbatim>\<open>fetch\<close> itself may reject.

  Both functions touch \<^verbatim>\<open>latestState\<close> and the document only after their last
  \<^verbatim>\<open>await\<close>, in one uninterrupted run on the event loop, so each is a function from the
  page at that moment to the page afterwards.
\<close>

record response =
  res_ok :: bool
  res_statusText :: string
  res_text :: "js_error + string"
  res_json :: "js_error + jsval"

text \<open>The body of the \<^verbatim>\<open>try\<close> block of \<^verbatim>\<open>fetchState\<close>.\<close>

definition fetchState_try :: "js_error + response \<Rightarrow> page \<Rightarrow> js_error option \<times> page" where
  "fetchState_try fetched pg =
     (case fetched of Inl e \<Rightarrow> (Some e, pg) | Inr res \<Rightarrow>
      (if \<not> res_ok res then
        (case res_text res of Inl e \<Rightarrow> (Some e, pg) | Inr body \<Rightarrow> (Some (new_Error body), pg))
      else
        (case res_json res of Inl e \<Rightarrow> (Some e, pg) | Inr data \<Rightarrow>
        (let pg = pg\<lparr>latestState := data\<rparr> in
        (case renderState data (doc pg) of (err, d') \<Rightarrow> (err, pg\<lparr>doc := d'\<rparr>))))))"

text \<open>\<^verbatim>\<open>fetchState()\<close>; \<open>now\<close> is the clock reading if the \<^verbatim>\<open>catch\<close> block logs.\<close>

definition fetchState :: "string \<Rightarrow> js_error + response \<Rightarrow> page \<Rightarrow> page" where
  "fetchState now fetched pg =
     (case fetchState_try fetched pg of
        (None, pg') \<Rightarrow> pg'
      | (Some err, pg') \<Rightarrow>
          pg'\<lparr>doc := log now (JStr (''State error: '' @ error_to_string err)) (doc pg')\<rparr>)"



section \<open>The server's snapshot\<close>

text \<open>
  Modelled from the spec: the script declares no types, and the server that produces
  the snapshots is not part of the repository. The snapshot has a direction, the current
  floor, an optional active target, the queue of requested floors, the number of floors,
  and one entry per floor with its tag. The tag names are the strings the script compares
  against.
\<close>

datatype Direction = Up | Down | DirIdle

datatype FloorState = Idle | Queued | Moving | Current

record FloorInfo =
  info_floor :: int
  info_state :: FloorState

record ElevatorState =
  direction :: Direction
  currentFloor :: int
  activeTarget :: "int option"
  queue :: "int list"
  numFloors :: int
  floors :: "FloorInfo list"

fun Direction_name :: "Direction \<Rightarrow> string" where
  "Direction_name Up = ''Up''"
| "Direction_name Down = ''Down''"
| "Direction_name DirIdle = ''Idle''"

fun FloorState_name :: "FloorState \<Rightarrow> string" where
  "FloorState_name Idle = ''Idle''"
| "FloorState_name Queued = ''Queued''"
| "FloorState_name Moving = ''Moving''"
| "FloorState_name Current = ''Current''"

text \<open>The JSON value \<^verbatim>\<open>res.json()\<close> yields for a snapshot.\<close>

definition json_of_FloorInfo :: "FloorInfo \<Rightarrow> jsval" where
  "json_of_FloorInfo fi =
     JObj [(''floor'', JNum (info_floor fi)), (''state'', JStr (FloorState_name (info_state fi)))]"

definition json_of_state :: "ElevatorState \<Rightarrow> jsval" where
  "json_of_state s =
     JObj [(''direction'', JStr (Direction_name (direction s))),
           (''currentFloor'', JNum (currentFloor s)),
           (''activeTarget'', (case activeTarget s of None \<Rightarrow> JNull | Some t \<Rightarrow> JNum t)),
           (''queue'', JArr (map JNum (queue s))),
           (''numFloors'', JNum (numFloors s)),
           (''floors'', JArr (map json_of_FloorInfo (floors s)))]"

text \<open>
  The validity the server promises: as many floor entries as \<open>numFloors\<close>, and exactly
  one entry tagged \<open>Current\<close>, which is the entry of \<open>currentFloor\<close>.
\<close>

definition valid_state :: "ElevatorState \<Rightarrow> bool" where
  "valid_state s =
     (int (length (floors s)) = numFloors s \<and>
      map info_floor (filter (\<lambda>fi. info_state fi = Current) (floors s)) = [currentFloor s])"

section \<open>Notions used in the proofs\<close>

text \<open>
  A statement sequence \<open>f\<close> of the renderer throws or not independently of the document it
  starts from (\<open>err_const\<close>), and writes each field of the document blindly: whatever
  document it starts from, it either leaves the field as it was or stores the same value
  (\<open>obl\<close>).
\<close>

definition err_const :: "(dom \<Rightarrow> js_error option \<times> dom) \<Rightarrow> bool" where
  "err_const f = (\<forall>d d'. fst (f d) = fst (f d'))"

definition obl :: "(dom \<Rightarrow> 'a) \<Rightarrow> (dom \<Rightarrow> js_error option \<times> dom) \<Rightarrow> bool" where
  "obl fld f =
     (\<forall>d d'. fld (snd (f d)) = fld (snd (f d')) \<or>
              (fld (snd (f d)) = fld d \<and> fld (snd (f d')) = fld d'))"

section \<open>Example inputs\<close>

text \<open>
  An empty document, the page at start, the snapshot of a five-floor building with the
  car idle at floor 3, the snapshot after floor 4 was requested, and some responses.
\<close>

definition dom0 :: dom where
  "dom0 = \<lparr>dirEl = [], currentEl = [], targetEl = [], queueSizeEl = [], floorCountEl = [],
           queueChipsEl = [], floorsEl = [], logEl = []\<rparr>"


definition state_at_3 :: ElevatorState where
  "state_at_3 =
     \<lparr>direction = DirIdle, currentFloor = 3, activeTarget = None, queue = [], numFloors = 5,
      floors = [\<lparr>info_floor = 1, info_state = Idle\<rparr>, \<lparr>info_floor = 2, info_state = Idle\<rparr>,
                \<lparr>info_floor = 3, info_state = Current\<rparr>, \<lparr>info_floor = 4, info_state = Idle\<rparr>,
                \<lparr>info_floor = 5, info_state = Idle\<rparr>]\<rparr>"


definition page_at_3 :: page where
  "page_at_3 = \<lparr>doc = snd (renderState (json_of_state state_at_3) dom0),
                latestState = json_of_state state_at_3\<rparr>"

definition res_db_down :: response where
  \<open>res_db_down =
     \<lparr>res_ok = False, res_statusText = ''Internal Server Error'', res_text = Inr ''db down'',
      res_json = Inl (JsError ''SyntaxError'' ''Unexpected token d in JSON at position 0'')\<rparr>\<close>


definition json_without_queue :: jsval where
  "json_without_queue =
     JObj [(''direction'', JStr ''Idle''), (''currentFloor'', JNum 2), (''activeTarget'', JNull),
           (''numFloors'', JNum 5), (''floors'', JArr [])]"

definition res_without_queue :: response where
  \<open>res_without_queue =
     \<lparr>res_ok = True, res_statusText = ''OK'',
      res_text = Inr ''{"direction": "Idle", "currentFloor": 2, ...}'',
      res_json = Inr json_without_queue\<rparr>\<close>






section \<open>Properties of the log\<close>

lemma filter_remove_first: "filter P (remove_first P xs) = tl (filter P xs)"
  by (induction xs) auto

lemma filter_remove_last: "filter P (remove_last P xs) = butlast (filter P xs)"
  by (simp add: remove_last_def rev_filter [symmetric] filter_remove_first butlast_rev [symmetric] del: rev_filter)

lemma set_remove_first: "set (remove_first P xs) \<subseteq> set xs"
  by (induction xs) auto

lemma set_remove_last: "set (remove_last P xs) \<subseteq> set xs"
  using set_remove_first [of P "rev xs"] by (simp add: remove_last_def)

lemma remove_first_append:
  "\<exists>x \<in> set xs. P x \<Longrightarrow> remove_first P (xs @ ys) = remove_first P xs @ ys"
  by (induction xs) auto

lemma remove_last_Cons:
  "\<exists>x \<in> set xs. P x \<Longrightarrow> remove_last P (y # xs) = y # remove_last P xs"
  by (simp add: remove_last_def remove_first_append)

lemma log_eq:
  "log now msg d =
     d\<lparr>logEl := log_line now msg #
                  (if 80 \<le> length (filter is_log_line (logEl d))
                   then remove_last is_log_line (logEl d) else logEl d)\<rparr>"
proof -
  have p: "is_log_line (log_line now msg)"
    by (simp add: is_log_line_def log_line_def)
  show ?thesis
  proof (cases "80 \<le> length (filter is_log_line (logEl d))")
    case True
    then have "filter is_log_line (logEl d) \<noteq> []" by auto
    then have "\<exists>x \<in> set (logEl d). is_log_line x"
      by (simp add: filter_empty_conv)
    with True p show ?thesis
      by (simp add: log_def Let_def remove_last_Cons)
  next
    case False
    with p show ?thesis by (simp add: log_def Let_def)
  qed
qed

lemma log_other_fields: "(log now msg d)\<lparr>logEl := logEl d\<rparr> = d"
  by (simp add: log_eq)

lemma log_lines_step:
  assumes "length (filter is_log_line (logEl d)) \<le> 80"
  shows "filter is_log_line (logEl (log now msg d)) =
           take 80 (log_line now msg # filter is_log_line (logEl d))"
proof -
  have p: "is_log_line (log_line now msg)"
    by (simp add: is_log_line_def log_line_def)
  show ?thesis
  proof (cases "length (filter is_log_line (logEl d)) = 80")
    case True
    then show ?thesis using p
      by (simp add: log_def Let_def filter_remove_last butlast_conv_take)
  next
    case False
    with assms have "length (filter is_log_line (logEl d)) < 80" by simp
    then show ?thesis using p
      by (simp add: log_def Let_def)
  qed
qed

lemma log_all_lines:
  "length (filter is_log_line (logEl d)) \<le> 80 \<Longrightarrow>
   filter is_log_line (logEl (log_all ms d)) =
     take 80 (rev (map (\<lambda>(now, msg). log_line now msg) ms) @ filter is_log_line (logEl d))"
proof (induction ms arbitrary: d)
  case Nil
  then show ?case by simp
next
  case (Cons a ms)
  obtain now msg where a: "a = (now, msg)" by (cases a)
  have st: "filter is_log_line (logEl (log now msg d)) =
           take 80 (log_line now msg # filter is_log_line (logEl d))"
    using Cons.prems by (rule log_lines_step)
  then have le: "length (filter is_log_line (logEl (log now msg d))) \<le> 80" by simp
  show ?case
    using Cons.IH [OF le] st a
    by (simp add: take_Cons' min_def) 
qed

lemma log_keeps_log_lines:
  assumes "\<forall>e \<in> set (logEl d). is_log_line e"
  shows "\<forall>e \<in> set (logEl (log now msg d)). is_log_line e"
proof -
  have p: "is_log_line (log_line now msg)"
    by (simp add: is_log_line_def log_line_def)
  from assms set_remove_last [of is_log_line "logEl d"]
  have "\<forall>e \<in> set (remove_last is_log_line (logEl d)). is_log_line e" by blast
  with assms p show ?thesis by (simp add: log_eq)
qed

lemma log_all_keeps_log_lines:
  "\<forall>e \<in> set (logEl d). is_log_line e \<Longrightarrow> \<forall>e \<in> set (logEl (log_all ms d)). is_log_line e"
proof (induction ms arbitrary: d)
  case Nil
  then show ?case by simp
next
  case (Cons a ms)
  obtain now msg where a: "a = (now, msg)" by (cases a)
  from Cons.IH [OF log_keeps_log_lines [OF Cons.prems, of now msg]] a show ?case by simp
qed

text \<open>
  Claim C2. Whatever is appended to the log, it never holds more than 80 log lines, and
  the lines it holds are the most recent ones, newest first: after the appends \<open>ms\<close> the
  log lines are the first 80 of the new lines in reverse order of appending, followed by
  the lines that were there before. If the log container holds nothing but log lines (as
  when it starts empty), this is the whole content of the container. Appending 200 lines
  to the empty log leaves exactly 80.
\<close>

theorem log_buffer_bounded:
  assumes "length (filter is_log_line (logEl d)) \<le> 80"
  shows "filter is_log_line (logEl (log_all ms d)) =
           take 80 (rev (map (\<lambda>(now, msg). log_line now msg) ms) @ filter is_log_line (logEl d)) \<and>
         length (filter is_log_line (logEl (log_all ms d))) \<le> 80 \<and>
         ((\<forall>e \<in> set (logEl d). is_log_line e) \<longrightarrow>
            logEl (log_all ms d) =
              take 80 (rev (map (\<lambda>(now, msg). log_line now msg) ms) @ logEl d))"
proof -
  note eq = log_all_lines [OF assms, of ms]
  have le: "length (filter is_log_line (logEl (log_all ms d))) \<le> 80"
    unfolding eq by simp
  have "logEl (log_all ms d) =
          take 80 (rev (map (\<lambda>(now, msg). log_line now msg) ms) @ logEl d)"
    if a: "\<forall>e \<in> set (logEl d). is_log_line e"
  proof -
    from a have 1: "filter is_log_line (logEl d) = logEl d" by simp
    from log_all_keeps_log_lines [OF a, of ms]
    have 2: "filter is_log_line (logEl (log_all ms d)) = logEl (log_all ms d)" by simp
    from eq show ?thesis unfolding 1 2 .
  qed
  with eq le show ?thesis by blast
qed

text \<open>Claim C2, at the empty log and 200 appends: 80 lines remain, the last appended first.\<close>

theorem log_buffer_bounded_witness:
  "length (filter is_log_line (logEl dom0)) \<le> 80 \<and>
   logEl dom0 = [] \<and>
   length (logEl (log_all (map (\<lambda>n. (''12:00:00'', JNum (int n))) [0..<200]) dom0)) = 80 \<and>
   map textContent (take 3 (logEl (log_all (map (\<lambda>n. (''12:00:00'', JNum (int n))) [0..<200]) dom0))) =
     [''[12:00:00] 199'', ''[12:00:00] 198'', ''[12:00:00] 197'']"
proof -
  let ?ms = "map (\<lambda>n. (''12:00:00'', JNum (int n))) [0..<200]"
  have h: "length (filter is_log_line (logEl dom0)) \<le> 80" by (simp add: dom0_def)
  have e: "logEl dom0 = []" by (simp add: dom0_def)
  then have a: "\<forall>e \<in> set (logEl dom0). is_log_line e" by simp
  from log_buffer_bounded [OF h, of ?ms] a
  have eq: "logEl (log_all ?ms dom0) =
              take 80 (rev (map (\<lambda>(now, msg). log_line now msg) ?ms) @ logEl dom0)"
    by blast
  have len: "length (logEl (log_all ?ms dom0)) = 80"
    unfolding eq by simp
  have ev: "map textContent (take 3 (take 80 (rev (map (\<lambda>(now, msg). log_line now msg) ?ms) @ logEl dom0))) =
     [''[12:00:00] 199'', ''[12:00:00] 198'', ''[12:00:00] 197'']"
    by code_simp
  from h e len ev show ?thesis unfolding eq by blast
qed

section \<open>Rendering a snapshot\<close>

lemma chips_loop_eq: "chips_loop fs d = d\<lparr>queueChipsEl := queueChipsEl d @ map queue_chip fs\<rparr>"
  by (induction fs arbitrary: d) simp_all

lemma floor_button_json:
  "floor_button (json_of_FloorInfo fi) =
     Inr \<lparr>tagName = ''button'',
          classList = (case info_state fi of
                         Idle \<Rightarrow> [''floor'']
                       | Queued \<Rightarrow> [''floor'', ''state-queued'']
                       | Moving \<Rightarrow> [''floor'', ''state-moving'']
                       | Current \<Rightarrow> [''floor'', ''state-current'']),
          textContent = show_int (info_floor fi),
          disabled = (info_state fi \<noteq> Idle),
          onclick = Some (JNum (info_floor fi))\<rparr>"
  by (cases "info_state fi")
     (simp_all add: floor_button_def json_of_FloorInfo_def createElement_def classList_add_def
        disableStates_def text_content_def)

lemma floors_loop_ok:
  "\<forall>info \<in> set infos. floor_button info = Inr (b info) \<Longrightarrow>
   floors_loop infos d = (None, d\<lparr>floorsEl := floorsEl d @ map b infos\<rparr>)"
  by (induction infos arbitrary: d) simp_all

lemma render_status_json:
  "render_status (json_of_state s) d =
     (None, d\<lparr>dirEl := ''Direction: '' @ Direction_name (direction s),
              currentEl := show_int (currentFloor s),
              targetEl := (case activeTarget s of None \<Rightarrow> ''-'' | Some t \<Rightarrow> show_int t),
              queueSizeEl := show_int (int (length (queue s))),
              floorCountEl := show_int (numFloors s) @ '' floors''\<rparr>)"
  by (cases "activeTarget s")
     (simp_all add: render_status_def json_of_state_def text_content_def nullish_or_def)

lemma render_chips_json:
  "render_chips (json_of_state s) d =
     (None, d\<lparr>queueChipsEl := map (\<lambda>f. queue_chip (JNum f)) (queue s)\<rparr>)"
  by (simp add: render_chips_def json_of_state_def forEach_items_def chips_loop_eq comp_def)

lemma render_floors_json:
  "render_floors (json_of_state s) d =
     (None, d\<lparr>floorsEl := map (\<lambda>info. projr (floor_button info))
                               (rev (map json_of_FloorInfo (floors s)))\<rparr>)"
proof -
  have "\<forall>info \<in> set (rev (map json_of_FloorInfo (floors s))).
          floor_button info = Inr (projr (floor_button info))"
    by (auto simp: floor_button_json)
  from floors_loop_ok [where b = "\<lambda>info. projr (floor_button info)", OF this]
  show ?thesis
    by (simp add: render_floors_def json_of_state_def spread_def)
qed

lemma truthy_json_of_state: "truthy (json_of_state s)"
  by (simp add: json_of_state_def)

lemma renderState_json:
  "renderState (json_of_state s) d =
     (None, d\<lparr>dirEl := ''Direction: '' @ Direction_name (direction s),
              currentEl := show_int (currentFloor s),
              targetEl := (case activeTarget s of None \<Rightarrow> ''-'' | Some t \<Rightarrow> show_int t),
              queueSizeEl := show_int (int (length (queue s))),
              floorCountEl := show_int (numFloors s) @ '' floors'',
              queueChipsEl := map (\<lambda>f. queue_chip (JNum f)) (queue s),
              floorsEl := map (\<lambda>info. projr (floor_button info))
                            (rev (map json_of_FloorInfo (floors s)))\<rparr>)"
  by (simp add: renderState_def truthy_json_of_state and_then_def render_status_json
        render_chips_json render_floors_json)

lemma floorsEl_renderState_json:
  "floorsEl (snd (renderState (json_of_state s) d)) =
     map (\<lambda>fi. \<lparr>tagName = ''button'',
          classList = (case info_state fi of
                         Idle \<Rightarrow> [''floor'']
                       | Queued \<Rightarrow> [''floor'', ''state-queued'']
                       | Moving \<Rightarrow> [''floor'', ''state-moving'']
                       | Current \<Rightarrow> [''floor'', ''state-current'']),
          textContent = show_int (info_floor fi),
          disabled = (info_state fi \<noteq> Idle),
          onclick = Some (JNum (info_floor fi))\<rparr>) (rev (floors s))"
  by (simp add: renderState_json rev_map floor_button_json comp_def)

subsection \<open>Decimal printing is injective\<close>

lemma digit_char_inj: "m < 10 \<Longrightarrow> n < 10 \<Longrightarrow> digit_char m = digit_char n \<Longrightarrow> m = n"
proof -
  have d: "distinct ''0123456789''" by simp
  assume "m < 10" "n < 10" "digit_char m = digit_char n"
  then show ?thesis
    using nth_eq_iff_index_eq [OF d, of m n] by (simp add: digit_char_def)
qed

lemma show_nat_nonempty: "show_nat n \<noteq> []"
  by (subst show_nat.simps) simp

lemma show_nat_inj: "show_nat m = show_nat n \<Longrightarrow> m = n"
proof (induction m arbitrary: n rule: show_nat.induct)
  case (1 m)
  show ?case
  proof (cases "m < 10")
    case True
    note m = this
    show ?thesis
    proof (cases "n < 10")
      case True
      with m "1.prems" show ?thesis
        by (subst (asm) show_nat.simps, subst (asm) (2) show_nat.simps) (simp add: digit_char_inj)
    next
      case False
      with m "1.prems" show ?thesis
        using show_nat_nonempty [of "n div 10"]
        by (subst (asm) show_nat.simps, subst (asm) (2) show_nat.simps) simp
    qed
  next
    case False
    note m = this
    show ?thesis
    proof (cases "n < 10")
      case True
      with m "1.prems" show ?thesis
        using show_nat_nonempty [of "m div 10"]
        by (subst (asm) show_nat.simps, subst (asm) (2) show_nat.simps) simp
    next
      case False
      from m False "1.prems"
      have "show_nat (m div 10) @ [digit_char (m mod 10)] = show_nat (n div 10) @ [digit_char (n mod 10)]"
        by (subst (asm) show_nat.simps, subst (asm) (2) show_nat.simps) simp
      then have a: "show_nat (m div 10) = show_nat (n div 10)"
        and b: "digit_char (m mod 10) = digit_char (n mod 10)" by simp_all
      from "1.IH" [OF m a] have "m div 10 = n div 10" .
      moreover from b have "m mod 10 = n mod 10" by (intro digit_char_inj) simp_all
      ultimately show ?thesis by (metis div_mult_mod_eq)
    qed
  qed
qed

lemma digit_char_not_minus: "n < 10 \<Longrightarrow> digit_char n \<noteq> CHR ''-''"
proof -
  assume "n < 10"
  then have "n \<in> {0,1,2,3,4,5,6,7,8,9}" by auto
  then show ?thesis by (auto simp: digit_char_def)
qed

lemma show_nat_hd: "hd (show_nat n) \<noteq> CHR ''-''"
proof (induction n rule: show_nat.induct)
  case (1 n)
  show ?case
  proof (cases "n < 10")
    case True
    then show ?thesis by (subst show_nat.simps) (simp add: digit_char_not_minus)
  next
    case False
    with "1.IH" show_nat_nonempty [of "n div 10"] show ?thesis
      by (subst show_nat.simps) simp
  qed
qed

lemma show_int_inj: "show_int i = show_int j \<Longrightarrow> i = j"
proof -
  assume e: "show_int i = show_int j"
  have ne: "\<And>n m. CHR ''-'' # show_nat n \<noteq> show_nat m"
    using show_nat_hd by (metis list.sel(1))
  show ?thesis
  proof (cases "i < 0"; cases "j < 0")
    assume "i < 0" "j < 0"
    with e have "nat (- i) = nat (- j)" by (simp add: show_int_def show_nat_inj)
    with \<open>i < 0\<close> \<open>j < 0\<close> show ?thesis by simp
  next
    assume "i < 0" "\<not> j < 0"
    with e ne show ?thesis by (simp add: show_int_def)
  next
    assume "\<not> i < 0" "j < 0"
    with e ne [of "nat (- j)" "nat i"] show ?thesis by (simp add: show_int_def)
  next
    assume "\<not> i < 0" "\<not> j < 0"
    with e have "nat i = nat j" by (simp add: show_int_def show_nat_inj)
    with \<open>\<not> i < 0\<close> \<open>\<not> j < 0\<close> show ?thesis by simp
  qed
qed

subsection \<open>Floor buttons\<close>

lemma valid_state_current:
  assumes "valid_state s"
  shows "\<exists>fi \<in> set (floors s). info_state fi = Current \<and> info_floor fi = currentFloor s"
proof -
  from assms have "map info_floor (filter (\<lambda>fi. info_state fi = Current) (floors s)) = [currentFloor s]"
    by (simp add: valid_state_def)
  then obtain fi where "filter (\<lambda>fi. info_state fi = Current) (floors s) = [fi]"
    and f: "info_floor fi = currentFloor s"
    by (auto simp: map_eq_Cons_conv)
  then have "fi \<in> set (filter (\<lambda>fi. info_state fi = Current) (floors s))" by simp
  with f show ?thesis by auto
qed

text \<open>
  Claim C4. For every valid snapshot (as many floor entries as \<open>numFloors\<close>, exactly one
  entry tagged \<open>Current\<close>, and that entry is the one of \<open>currentFloor\<close>) rendering does not
  throw and leaves exactly \<open>numFloors\<close> floor buttons, in the reverse of the server's order,
  each labelled with its floor number. A button is disabled exactly when its floor is
  tagged \<open>Current\<close>, \<open>Moving\<close> or \<open>Queued\<close>, and then carries the class of that tag
  next to \<open>floor\<close>; the button of an \<open>Idle\<close> floor is enabled and carries the class
  \<open>floor\<close> alone. There is a button labelled \<open>currentFloor\<close> that is disabled and carries
  \<open>state-current\<close>; when the floor numbers are distinct, every button with that label is
  such. When the server's order is ascending, the labels are the floor numbers in
  descending order (highest floor first).
\<close>

theorem renderState_floor_buttons:
  assumes "valid_state s"
  shows "fst (renderState (json_of_state s) d) = None \<and>
    int (length (floorsEl (snd (renderState (json_of_state s) d)))) = numFloors s \<and>
    map textContent (floorsEl (snd (renderState (json_of_state s) d))) =
      rev (map (\<lambda>fi. show_int (info_floor fi)) (floors s)) \<and>
    map disabled (floorsEl (snd (renderState (json_of_state s) d))) =
      rev (map (\<lambda>fi. info_state fi = Current \<or> info_state fi = Moving \<or> info_state fi = Queued)
             (floors s)) \<and>
    map classList (floorsEl (snd (renderState (json_of_state s) d))) =
      rev (map (\<lambda>fi. case info_state fi of
                        Idle \<Rightarrow> [''floor'']
                      | Queued \<Rightarrow> [''floor'', ''state-queued'']
                      | Moving \<Rightarrow> [''floor'', ''state-moving'']
                      | Current \<Rightarrow> [''floor'', ''state-current''])
             (floors s)) \<and>
    (\<exists>b \<in> set (floorsEl (snd (renderState (json_of_state s) d))).
       textContent b = show_int (currentFloor s) \<and> disabled b \<and>
       ''state-current'' \<in> set (classList b)) \<and>
    (distinct (map info_floor (floors s)) \<longrightarrow>
       (\<forall>b \<in> set (floorsEl (snd (renderState (json_of_state s) d))).
          textContent b = show_int (currentFloor s) \<longrightarrow>
          disabled b \<and> ''state-current'' \<in> set (classList b))) \<and>
    (sorted (map info_floor (floors s)) \<longrightarrow>
       (\<exists>ns. map textContent (floorsEl (snd (renderState (json_of_state s) d))) = map show_int ns \<and>
             sorted (rev ns)))"
proof -
  let ?bs = "floorsEl (snd (renderState (json_of_state s) d))"
  note bs = floorsEl_renderState_json [of s d]
  from valid_state_current [OF assms] obtain cur
    where cur: "cur \<in> set (floors s)" "info_state cur = Current" "info_floor cur = currentFloor s"
    by blast
  have c1: "fst (renderState (json_of_state s) d) = None"
    by (simp add: renderState_json)
  have c2: "int (length ?bs) = numFloors s"
    using assms by (simp add: bs valid_state_def)
  have c3: "map textContent ?bs = rev (map (\<lambda>fi. show_int (info_floor fi)) (floors s))"
    by (simp add: bs rev_map comp_def)
  have st: "\<And>x. (x \<noteq> Idle) = (x = Current \<or> x = Moving \<or> x = Queued)"
    by (case_tac x) simp_all
  have c4: "map disabled ?bs =
      rev (map (\<lambda>fi. info_state fi = Current \<or> info_state fi = Moving \<or> info_state fi = Queued)
             (floors s))"
    by (simp add: bs rev_map comp_def st)
  have c5: "map classList ?bs =
      rev (map (\<lambda>fi. case info_state fi of
                        Idle \<Rightarrow> [''floor'']
                      | Queued \<Rightarrow> [''floor'', ''state-queued'']
                      | Moving \<Rightarrow> [''floor'', ''state-moving'']
                      | Current \<Rightarrow> [''floor'', ''state-current''])
             (floors s))"
    by (simp add: bs rev_map comp_def)
  have c6: "\<exists>b \<in> set ?bs. textContent b = show_int (currentFloor s) \<and> disabled b \<and>
       ''state-current'' \<in> set (classList b)"
    unfolding bs using cur by (auto intro!: bexI [of _ cur])
  have c7: "distinct (map info_floor (floors s)) \<longrightarrow>
       (\<forall>b \<in> set ?bs. textContent b = show_int (currentFloor s) \<longrightarrow>
          disabled b \<and> ''state-current'' \<in> set (classList b))"
  proof (intro impI ballI)
    fix b
    assume dist: "distinct (map info_floor (floors s))"
      and b: "b \<in> set ?bs" and lab: "textContent b = show_int (currentFloor s)"
    from b [unfolded bs] obtain fi where fi: "fi \<in> set (floors s)"
      and bfi: "textContent b = show_int (info_floor fi)"
         "disabled b = (info_state fi \<noteq> Idle)"
         "classList b = (case info_state fi of
                         Idle \<Rightarrow> [''floor'']
                       | Queued \<Rightarrow> [''floor'', ''state-queued'']
                       | Moving \<Rightarrow> [''floor'', ''state-moving'']
                       | Current \<Rightarrow> [''floor'', ''state-current''])"
      by auto
    from lab bfi(1) have "info_floor fi = currentFloor s" by (simp add: show_int_inj)
    with cur have "info_floor fi = info_floor cur" by simp
    moreover from dist have "inj_on info_floor (set (floors s))" by (simp add: distinct_map)
    ultimately have "fi = cur" using fi cur(1) by (auto dest: inj_onD)
    with cur bfi show "disabled b \<and> ''state-current'' \<in> set (classList b)" by simp
  qed
  have c8: "sorted (map info_floor (floors s)) \<longrightarrow>
       (\<exists>ns. map textContent ?bs = map show_int ns \<and> sorted (rev ns))"
  proof
    assume "sorted (map info_floor (floors s))"
    then show "\<exists>ns. map textContent ?bs = map show_int ns \<and> sorted (rev ns)"
      by (intro exI [of _ "rev (map info_floor (floors s))"]) (simp add: c3 rev_map comp_def)
  qed
  from c1 c2 c3 c4 c5 c6 c7 c8 show ?thesis by blast
qed

text \<open>
  Claim C4, at the five-floor snapshot with the car at floor 3: the buttons read 5, 4, 3,
  2, 1 and only button 3 is disabled.
\<close>

theorem renderState_floor_buttons_witness:
  "valid_state state_at_3 \<and>
   distinct (map info_floor (floors state_at_3)) \<and>
   sorted (map info_floor (floors state_at_3)) \<and>
   fst (renderState (json_of_state state_at_3) dom0) = None \<and>
   map textContent (floorsEl (snd (renderState (json_of_state state_at_3) dom0))) =
     [''5'', ''4'', ''3'', ''2'', ''1''] \<and>
   map disabled (floorsEl (snd (renderState (json_of_state state_at_3) dom0))) =
     [False, False, True, False, False] \<and>
   map classList (floorsEl (snd (renderState (json_of_state state_at_3) dom0))) =
     [[''floor''], [''floor''], [''floor'', ''state-current''], [''floor''], [''floor'']]"
proof -
  have v: "valid_state state_at_3"
    by (simp add: valid_state_def state_at_3_def)
  have ds: "distinct (map info_floor (floors state_at_3))"
    "sorted (map info_floor (floors state_at_3))"
    by (simp_all add: state_at_3_def)
  have sh: "rev (map (\<lambda>fi. show_int (info_floor fi)) (floors state_at_3)) =
      [''5'', ''4'', ''3'', ''2'', ''1'']"
    by code_simp
  from renderState_floor_buttons [OF v, of dom0] v ds sh show ?thesis
    by (simp add: state_at_3_def)
qed

subsection \<open>Queue chips\<close>

text \<open>
  Claim C8. For every snapshot, rendering does not throw and leaves exactly one chip per
  element of the queue, in queue order, each labelled \<open>Queued: n\<close> with that element's
  floor number \<open>n\<close>. Equal floor numbers in the queue give one chip each.
\<close>

theorem renderState_queue_chips:
  "fst (renderState (json_of_state s) d) = None \<and>
   queueChipsEl (snd (renderState (json_of_state s) d)) = map (\<lambda>f. queue_chip (JNum f)) (queue s) \<and>
   length (queueChipsEl (snd (renderState (json_of_state s) d))) = length (queue s) \<and>
   map textContent (queueChipsEl (snd (renderState (json_of_state s) d))) =
     map (\<lambda>f. ''Queued: '' @ show_int f) (queue s)"
  by (simp add: renderState_json queue_chip_def comp_def)

subsection \<open>No state\<close>

text \<open>
  Claim C6. Rendering with an absent state (\<^verbatim>\<open>null\<close>, the starting value of
  \<^verbatim>\<open>latestState\<close>, or \<^verbatim>\<open>undefined\<close>) throws nothing and returns the document
  exactly as it was: no status field, chip or button is touched.
\<close>

theorem renderState_absent:
  "renderState JNull d = (None, d) \<and> renderState JUndefined d = (None, d)"
  by (simp add: renderState_def)

subsection \<open>Rendering twice\<close>

lemma err_const_and_then:
  assumes f: "err_const f" and g: "err_const g"
  shows "err_const (and_then f g)"
  unfolding err_const_def
proof (intro allI)
  fix d d'
  obtain e r where fd: "f d = (e, r)" by (cases "f d")
  obtain e' r' where fd': "f d' = (e', r')" by (cases "f d'")
  from f [unfolded err_const_def, rule_format, of d d'] fd fd' have ee: "e' = e" by simp
  from g [unfolded err_const_def, rule_format, of r r'] have "fst (g r) = fst (g r')" .
  with fd fd' ee show "fst (and_then f g d) = fst (and_then f g d')"
    by (cases e) (simp_all add: and_then_def)
qed

lemma obl_and_then:
  assumes ef: "err_const f" and f: "obl fld f" and g: "obl fld g"
  shows "obl fld (and_then f g)"
  unfolding obl_def
proof (intro allI)
  fix d d'
  obtain e r where fd: "f d = (e, r)" by (cases "f d")
  obtain e' r' where fd': "f d' = (e', r')" by (cases "f d'")
  from ef [unfolded err_const_def, rule_format, of d d'] fd fd' have ee: "e' = e" by simp
  show "fld (snd (and_then f g d)) = fld (snd (and_then f g d')) \<or>
        (fld (snd (and_then f g d)) = fld d \<and> fld (snd (and_then f g d')) = fld d')"
  proof (cases e)
    case (Some x)
    with fd fd' ee f [unfolded obl_def, rule_format, of d d'] show ?thesis
      by (simp add: and_then_def)
  next
    case None
    with fd fd' ee have a: "and_then f g d = g r" "and_then f g d' = g r'"
      by (simp_all add: and_then_def)
    from g [unfolded obl_def, rule_format, of r r'] f [unfolded obl_def, rule_format, of d d'] fd fd'
    show ?thesis unfolding a by auto
  qed
qed

lemma dom_eqI:
  fixes a b :: dom
  assumes "dirEl a = dirEl b" "currentEl a = currentEl b" "targetEl a = targetEl b"
    "queueSizeEl a = queueSizeEl b" "floorCountEl a = floorCountEl b"
    "queueChipsEl a = queueChipsEl b" "floorsEl a = floorsEl b" "logEl a = logEl b"
  shows "a = b"
  using assms by (intro dom.equality) simp_all

lemma obl_idem:
  assumes "obl fld f"
  shows "fld (snd (f (snd (f d)))) = fld (snd (f d))"
  using assms [unfolded obl_def, rule_format, of "snd (f d)" d] by auto

lemma all_obl_idem:
  assumes "err_const f"
    "obl dirEl f" "obl currentEl f" "obl targetEl f" "obl queueSizeEl f" "obl floorCountEl f"
    "obl queueChipsEl f" "obl floorsEl f" "obl logEl f"
  shows "f (snd (f d)) = f d"
proof (rule prod_eqI)
  show "fst (f (snd (f d))) = fst (f d)"
    using assms(1) [unfolded err_const_def, rule_format, of "snd (f d)" d] .
  show "snd (f (snd (f d))) = snd (f d)"
    by (rule dom_eqI) (simp_all add: obl_idem assms)
qed

lemma render_status_shape:
  "err_const (render_status v)"
  "obl dirEl (render_status v)" "obl currentEl (render_status v)" "obl targetEl (render_status v)"
  "obl queueSizeEl (render_status v)" "obl floorCountEl (render_status v)"
  "obl queueChipsEl (render_status v)" "obl floorsEl (render_status v)" "obl logEl (render_status v)"
  by (simp_all add: err_const_def obl_def render_status_def Let_def split: sum.splits)

lemma render_chips_shape:
  "err_const (render_chips v)"
  "obl dirEl (render_chips v)" "obl currentEl (render_chips v)" "obl targetEl (render_chips v)"
  "obl queueSizeEl (render_chips v)" "obl floorCountEl (render_chips v)"
  "obl queueChipsEl (render_chips v)" "obl floorsEl (render_chips v)" "obl logEl (render_chips v)"
  by (simp_all add: err_const_def obl_def render_chips_def Let_def chips_loop_eq split: sum.splits)

lemma floors_loop_shape:
  "\<exists>e bs. \<forall>d. floors_loop infos d = (e, d\<lparr>floorsEl := floorsEl d @ bs\<rparr>)"
proof (induction infos)
  case Nil
  show ?case by (intro exI [of _ None] exI [of _ "[]"]) simp
next
  case (Cons info infos)
  then obtain e bs where IH: "\<And>d. floors_loop infos d = (e, d\<lparr>floorsEl := floorsEl d @ bs\<rparr>)"
    by blast
  show ?case
  proof (cases "floor_button info")
    case (Inl err)
    then show ?thesis by (intro exI [of _ "Some err"] exI [of _ "[]"]) simp
  next
    case (Inr btn)
    then show ?thesis by (intro exI [of _ e] exI [of _ "btn # bs"]) (simp add: IH)
  qed
qed

lemma render_floors_const:
  "\<exists>e bs. \<forall>d. render_floors v d = (e, d\<lparr>floorsEl := bs\<rparr>)"
proof (cases "get_prop v ''floors''")
  case (Inl err)
  then show ?thesis by (intro exI [of _ "Some err"] exI [of _ "[]"]) (simp add: render_floors_def)
next
  case (Inr fl)
  note fl = this
  show ?thesis
  proof (cases "spread fl")
    case (Inl err)
    with fl show ?thesis
      by (intro exI [of _ "Some err"] exI [of _ "[]"]) (simp add: render_floors_def)
  next
    case (Inr infos)
    from floors_loop_shape [of "rev infos"] obtain e bs
      where "\<And>d. floors_loop (rev infos) d = (e, d\<lparr>floorsEl := floorsEl d @ bs\<rparr>)" by blast
    with fl Inr show ?thesis
      by (intro exI [of _ e] exI [of _ bs]) (simp add: render_floors_def)
  qed
qed

lemma render_floors_shape:
  "err_const (render_floors v)"
  "obl dirEl (render_floors v)" "obl currentEl (render_floors v)" "obl targetEl (render_floors v)"
  "obl queueSizeEl (render_floors v)" "obl floorCountEl (render_floors v)"
  "obl queueChipsEl (render_floors v)" "obl floorsEl (render_floors v)" "obl logEl (render_floors v)"
  using render_floors_const [of v] by (auto simp: err_const_def obl_def)

text \<open>
  Claim C5. Rendering the same state twice in succession gives the same document as
  rendering it once, and the same outcome: nothing accumulates. This holds for every value
  handed to the renderer, in particular for every snapshot.
\<close>

theorem renderState_idempotent: "renderState v (snd (renderState v d)) = renderState v d"
proof (cases "truthy v")
  case False
  then show ?thesis by (simp add: renderState_def)
next
  case True
  let ?f = "and_then (render_status v) (and_then (render_chips v) (render_floors v))"
  have e2: "err_const (and_then (render_chips v) (render_floors v))"
    by (intro err_const_and_then render_chips_shape render_floors_shape)
  have "?f (snd (?f d)) = ?f d"
    by (rule all_obl_idem)
       (intro err_const_and_then obl_and_then e2 render_status_shape render_chips_shape
          render_floors_shape)+
  with True show ?thesis by (simp add: renderState_def)
qed

section \<open>Polling\<close>

lemma fetchState_try_failure:
  assumes "fetched = Inl e \<or>
     (fetched = Inr res \<and> \<not> res_ok res \<and> res_text res = Inl e) \<or>
     (fetched = Inr res \<and> \<not> res_ok res \<and> res_text res = Inr body \<and> e = new_Error body) \<or>
     (fetched = Inr res \<and> res_ok res \<and> res_json res = Inl e)"
  shows "fetchState_try fetched pg = (Some e, pg)"
  using assms by (auto simp: fetchState_try_def)

text \<open>
  Claim C3. When a poll fails (\<^verbatim>\<open>fetch\<close> rejects with \<open>e\<close>; or the status is not
  successful, in which case \<open>e\<close> is an \<^verbatim>\<open>Error\<close> carrying the body text, or the
  rejection of reading the body; or the body does not parse, with the parser's error \<open>e\<close>),
  \<^verbatim>\<open>log\<close> is called exactly once, with \<open>State error: \<close> followed by the error; the new
  line is at the head of the log; \<^verbatim>\<open>latestState\<close> and everything in the document
  other than the log are as before.
\<close>

theorem fetchState_failure:
  assumes "fetched = Inl e \<or>
     (fetched = Inr res \<and> \<not> res_ok res \<and> res_text res = Inl e) \<or>
     (fetched = Inr res \<and> \<not> res_ok res \<and> res_text res = Inr body \<and> e = new_Error body) \<or>
     (fetched = Inr res \<and> res_ok res \<and> res_json res = Inl e)"
  shows "fetchState now fetched pg =
           pg\<lparr>doc := log now (JStr (''State error: '' @ error_to_string e)) (doc pg)\<rparr> \<and>
         latestState (fetchState now fetched pg) = latestState pg \<and>
         logEl (doc (fetchState now fetched pg)) =
           log_line now (JStr (''State error: '' @ error_to_string e)) #
             (if 80 \<le> length (filter is_log_line (logEl (doc pg)))
              then remove_last is_log_line (logEl (doc pg)) else logEl (doc pg)) \<and>
         (doc (fetchState now fetched pg))\<lparr>logEl := logEl (doc pg)\<rparr> = doc pg"
proof -
  have "fetchState now fetched pg =
           pg\<lparr>doc := log now (JStr (''State error: '' @ error_to_string e)) (doc pg)\<rparr>"
    by (simp add: fetchState_def fetchState_try_failure [OF assms])
  then show ?thesis
    by (simp add: log_other_fields) (simp add: log_eq)
qed

text \<open>
  Claim C3, at a response with status 500 and body \<open>db down\<close>, after a successful poll:
  the log shows the body text, \<^verbatim>\<open>latestState\<close> and the view are those of the earlier
  poll.
\<close>

theorem fetchState_failure_witness:
  "\<not> res_ok res_db_down \<and> res_text res_db_down = Inr ''db down'' \<and>
   latestState (fetchState ''12:00:00'' (Inr res_db_down) page_at_3) = json_of_state state_at_3 \<and>
   map textContent (logEl (doc (fetchState ''12:00:00'' (Inr res_db_down) page_at_3))) =
     [''[12:00:00] State error: Error: db down''] \<and>
   (doc (fetchState ''12:00:00'' (Inr res_db_down) page_at_3))\<lparr>logEl := []\<rparr> = doc page_at_3"
proof -
  have r: "\<not> res_ok res_db_down" "res_text res_db_down = Inr ''db down''"
    by (simp_all add: res_db_down_def)
  then have h: "Inr res_db_down = (Inl (new_Error ''db down'') :: js_error + response) \<or>
     (Inr res_db_down = (Inr res_db_down :: js_error + response) \<and> \<not> res_ok res_db_down \<and>
        res_text res_db_down = Inl (new_Error ''db down'')) \<or>
     (Inr res_db_down = (Inr res_db_down :: js_error + response) \<and> \<not> res_ok res_db_down \<and>
        res_text res_db_down = Inr ''db down'' \<and> new_Error ''db down'' = new_Error ''db down'') \<or>
     (Inr res_db_down = (Inr res_db_down :: js_error + response) \<and> res_ok res_db_down \<and>
        res_json res_db_down = Inl (new_Error ''db down''))"
    by simp
  have l0: "logEl (doc page_at_3) = []"
    by (simp add: page_at_3_def renderState_json dom0_def)
  have l1: "latestState page_at_3 = json_of_state state_at_3"
    by (simp add: page_at_3_def)
  note t = fetchState_failure [OF h, of "''12:00:00''" page_at_3]
  note t2 = t [THEN conjunct2, THEN conjunct1]
  note t3 = t [THEN conjunct2, THEN conjunct2, THEN conjunct1]
  note t4 = t [THEN conjunct2, THEN conjunct2, THEN conjunct2]
  from t2 have a: "latestState (fetchState ''12:00:00'' (Inr res_db_down) page_at_3) =
      json_of_state state_at_3"
    by (simp add: l1)
  from t3 have b: "map textContent (logEl (doc (fetchState ''12:00:00'' (Inr res_db_down) page_at_3))) =
     [''[12:00:00] State error: Error: db down'']"
    by (simp add: l0 log_line_def createElement_def new_Error_def)
  from t4 have c: "(doc (fetchState ''12:00:00'' (Inr res_db_down) page_at_3))\<lparr>logEl := []\<rparr> =
      doc page_at_3"
    by (simp add: l0)
  from r a b c show ?thesis by blast
qed



text \<open>
  Claim C10. When the status is successful and the body parses, \<^verbatim>\<open>latestState\<close> is the
  parsed value afterwards, whatever its shape: the assignment precedes the call of the
  renderer, and nothing checks the value. If the renderer then throws, the error is
  logged and the assignment stands.
\<close>

theorem fetchState_stores_unvalidated:
  assumes "res_ok res" and "res_json res = Inr data"
  shows "latestState (fetchState now (Inr res) pg) = data \<and>
         fetchState now (Inr res) pg =
           (case renderState data (doc pg) of
              (None, d') \<Rightarrow> \<lparr>doc = d', latestState = data\<rparr>
            | (Some err, d') \<Rightarrow>
                \<lparr>doc = log now (JStr (''State error: '' @ error_to_string err)) d',
                 latestState = data\<rparr>)"
  using assms
  by (simp add: fetchState_def fetchState_try_def split: prod.splits option.splits)

text \<open>
  Claim C10, at a payload without a \<^verbatim>\<open>queue\<close> field: it is stored, the renderer
  throws on \<^verbatim>\<open>state.queue.length\<close>, and the error is logged.
\<close>

theorem fetchState_stores_unvalidated_witness:
  "res_ok res_without_queue \<and> res_json res_without_queue = Inr json_without_queue \<and>
   latestState (fetchState ''12:00:00'' (Inr res_without_queue) page_at_3) = json_without_queue \<and>
   map textContent (logEl (doc (fetchState ''12:00:00'' (Inr res_without_queue) page_at_3))) =
     [''[12:00:00] State error: TypeError: cannot read property length'']"
proof -
  have r: "res_ok res_without_queue" "res_json res_without_queue = Inr json_without_queue"
    by (simp_all add: res_without_queue_def)
  have l0: "logEl (doc page_at_3) = []"
    by (simp add: page_at_3_def renderState_json dom0_def)
  have rs: "renderState json_without_queue (doc page_at_3) =
      (Some (TypeError_read ''length''),
       (doc page_at_3)\<lparr>dirEl := ''Direction: Idle'', currentEl := ''2'', targetEl := ''-''\<rparr>)"
    by (simp add: renderState_def json_without_queue_def and_then_def render_status_def
        text_content_def nullish_or_def show_int_def show_nat.simps digit_char_def)
  note t = fetchState_stores_unvalidated [OF r, of "''12:00:00''" page_at_3]
  note t1 = t [THEN conjunct1]
  note t2 = t [THEN conjunct2]
  from t1 have a: "latestState (fetchState ''12:00:00'' (Inr res_without_queue) page_at_3) =
      json_without_queue"
    .
  from t2 have b: "map textContent (logEl (doc (fetchState ''12:00:00'' (Inr res_without_queue) page_at_3))) =
     [''[12:00:00] State error: TypeError: cannot read property length'']"
    unfolding rs by (simp add: log_eq l0 log_line_def createElement_def TypeError_read_def)
  from r a b show ?thesis by blast
qed

section \<open>Requesting a floor\<close>









end
